theory Spec2Isabelle
  imports Main "HOL-Library.Sublist"
begin

text \<open>
  The repository holds two versions of the same program. \<^verbatim>\<open>app.ts\<close> has a
  \<^verbatim>\<open>publish(event)\<close> that calls itself on every event a subscriber returns, and two
  subscriber classes. The second file has a \<^verbatim>\<open>publish(event, events)\<close> that pushes
  the returned events onto the caller's array, four subscriber classes, and a driver that
  drains the array; it is called the queue-based file below. Constants that model
  \<^verbatim>\<open>app.ts\<close> carry the suffix \<open>_app\<close>; the event classes, the class \<^verbatim>\<open>Machine\<close>,
  \<^verbatim>\<open>subscribe\<close> and \<^verbatim>\<open>unsubscribe\<close> are the same in both files and are modelled once.
\<close>

section \<open>Event model\<close>

text \<open>
  The four event classes of both source files (\<^verbatim>\<open>MachineSaleEvent\<close>,
  \<^verbatim>\<open>MachineRefillEvent\<close>, \<^verbatim>\<open>LowStockWarningEvent\<close>, \<^verbatim>\<open>StockLevelOkEvent\<close>) as one
  datatype; the constructor arguments are in the order of the class constructors
  (quantity first, machine identifier last). Quantities and stock levels are JavaScript
  numbers in the source; they are modelled as unbounded integers (the generator only
  produces the integers 1, 2, 3 and 5, and the initial stock is an integer).
\<close>

datatype IEvent =
    MachineSaleEvent int string
  | MachineRefillEvent int string
  | LowStockWarningEvent string
  | StockLevelOkEvent string

text \<open>The method \<^verbatim>\<open>type()\<close> of each class.\<close>

fun event_type :: "IEvent \<Rightarrow> string" where
  "event_type (MachineSaleEvent _ _) = ''sale''"
| "event_type (MachineRefillEvent _ _) = ''refill''"
| "event_type (LowStockWarningEvent _) = ''LowStock''"
| "event_type (StockLevelOkEvent _) = ''StockLevelOk''"

text \<open>The method \<^verbatim>\<open>machineId()\<close> of each class.\<close>

fun machineId :: "IEvent \<Rightarrow> string" where
  "machineId (MachineSaleEvent _ m) = m"
| "machineId (MachineRefillEvent _ m) = m"
| "machineId (LowStockWarningEvent m) = m"
| "machineId (StockLevelOkEvent m) = m"

section \<open>Machines\<close>

text \<open>
  The class \<^verbatim>\<open>Machine\<close> with its two public fields; the field \<^verbatim>\<open>id\<close> is
  called \<open>id'\<close> here. The registry is the array \<^verbatim>\<open>machines\<close> that the driver
  creates once and injects into every subscriber, so the model has one registry, a list of
  machines in array order.
\<close>

record Machine =
  stockLevel :: int
  id' :: string

text \<open>\<^verbatim>\<open>this.machines.find((m) => m.id === event.machineId())\<close>: the first machine
  of the array with that identifier, or nothing.\<close>

definition find_machine :: "string \<Rightarrow> Machine list \<Rightarrow> Machine option" where
  "find_machine mid machines = find (\<lambda>m. id' m = mid) machines"

text \<open>
  The handlers assign to a field of the object that \<^verbatim>\<open>find\<close> returned. That object is
  the first element of the array with the identifier, so the assignment is modelled by
  writing the changed machine back at that position.
\<close>

fun store_machine :: "Machine \<Rightarrow> Machine list \<Rightarrow> Machine list" where
  "store_machine machine [] = []"
| "store_machine machine (m # ms) =
     (if id' m = id' machine then machine # ms else m # store_machine machine ms)"

section \<open>Subscribers of the queue-based file\<close>

text \<open>
  The four subscriber classes of the queue-based file. The natural number is the identity
  of the object: the subscriber sets of the service compare subscribers by identity.
\<close>

datatype ISubscriber =
    MachineSaleSubscriber nat
  | MachineRefillSubscriber nat
  | StockwarningSubscriber nat
  | StockLevelOkSubscriber nat

text \<open>
  \<^verbatim>\<open>handle\<close> of each class: the result is the returned event (\<open>None\<close> for
  \<^verbatim>\<open>undefined\<close>) and the registry after the call. Every handler first tests
  \<^verbatim>\<open>event instanceof\<close> its own event class and does nothing otherwise.
\<close>

fun handle :: "ISubscriber \<Rightarrow> IEvent \<Rightarrow> Machine list \<Rightarrow> IEvent option \<times> Machine list" where
  "handle (MachineSaleSubscriber _) event machines =
     (case event of
        MachineSaleEvent sold _ \<Rightarrow>
          (case find_machine (machineId event) machines of
             None \<Rightarrow> (None, machines)
           | Some machine \<Rightarrow>
               (let oldLevel = stockLevel machine;
                    machine' = machine\<lparr>stockLevel := stockLevel machine - sold\<rparr>
                in (if stockLevel machine' < 3 \<and> oldLevel \<ge> 3
                    then Some (LowStockWarningEvent (id' machine'))
                    else None,
                    store_machine machine' machines)))
      | _ \<Rightarrow> (None, machines))"
| "handle (MachineRefillSubscriber _) event machines =
     (case event of
        MachineRefillEvent refill _ \<Rightarrow>
          (case find_machine (machineId event) machines of
             None \<Rightarrow> (None, machines)
           | Some machine \<Rightarrow>
               (let oldLevel = stockLevel machine;
                    machine' = machine\<lparr>stockLevel := stockLevel machine + refill\<rparr>
                in (if stockLevel machine' \<ge> 3 \<and> oldLevel < 3
                    then Some (StockLevelOkEvent (id' machine'))
                    else None,
                    store_machine machine' machines)))
      | _ \<Rightarrow> (None, machines))"
| "handle (StockwarningSubscriber _) event machines =
     (case event of
        LowStockWarningEvent _ \<Rightarrow>
          (case find_machine (machineId event) machines of
             None \<Rightarrow> (None, machines)
           | Some machine \<Rightarrow>
               (Some (MachineRefillEvent (3 - stockLevel machine) (id' machine)), machines))
      | _ \<Rightarrow> (None, machines))"
| "handle (StockLevelOkSubscriber _) event machines =
     (case event of
        StockLevelOkEvent _ \<Rightarrow>
          (case find_machine (machineId event) machines of
             None \<Rightarrow> (None, machines)
           | Some machine \<Rightarrow> (None, machines))
      | _ \<Rightarrow> (None, machines))"

text \<open>
  The event class each subscriber class is written for: the class named in the type of
  the parameter of its \<^verbatim>\<open>handle\<close> and in its \<^verbatim>\<open>instanceof\<close> test.
\<close>

fun accepts :: "ISubscriber \<Rightarrow> IEvent \<Rightarrow> bool" where
  "accepts (MachineSaleSubscriber _) (MachineSaleEvent _ _) = True"
| "accepts (MachineRefillSubscriber _) (MachineRefillEvent _ _) = True"
| "accepts (StockwarningSubscriber _) (LowStockWarningEvent _) = True"
| "accepts (StockLevelOkSubscriber _) (StockLevelOkEvent _) = True"
| "accepts _ _ = False"

section \<open>Subscribers of \<^verbatim>\<open>app.ts\<close>\<close>

text \<open>
  \<^verbatim>\<open>app.ts\<close> has the two subscriber classes \<^verbatim>\<open>MachineSaleSubscriber\<close> and
  \<^verbatim>\<open>MachineRefillSubscriber\<close> only. Their \<^verbatim>\<open>handle\<close> has no \<^verbatim>\<open>instanceof\<close> test
  and does not remember the old stock level. It looks the machine up first (every event
  has \<^verbatim>\<open>machineId()\<close>) and, when the machine exists, calls \<^verbatim>\<open>getSoldQuantity()\<close>
  (\<^verbatim>\<open>getRefillQuantity()\<close>) on the event: on an event of another class that method is
  absent and the call raises a TypeError before the stock level is assigned.
\<close>

datatype error = TypeError

datatype ISubscriber_app =
    MachineSaleSubscriber_app nat
  | MachineRefillSubscriber_app nat

fun handle_app ::
  "ISubscriber_app \<Rightarrow> IEvent \<Rightarrow> Machine list \<Rightarrow> (error + IEvent option) \<times> Machine list" where
  "handle_app (MachineSaleSubscriber_app _) event machines =
     (case find_machine (machineId event) machines of
        None \<Rightarrow> (Inr None, machines)
      | Some machine \<Rightarrow>
          (case event of
             MachineSaleEvent sold _ \<Rightarrow>
               (let machine' = machine\<lparr>stockLevel := stockLevel machine - sold\<rparr>
                in (Inr (if stockLevel machine' < 3
                         then Some (LowStockWarningEvent (id' machine'))
                         else None),
                    store_machine machine' machines))
           | _ \<Rightarrow> (Inl TypeError, machines)))"
| "handle_app (MachineRefillSubscriber_app _) event machines =
     (case find_machine (machineId event) machines of
        None \<Rightarrow> (Inr None, machines)
      | Some machine \<Rightarrow>
          (case event of
             MachineRefillEvent refill _ \<Rightarrow>
               (let machine' = machine\<lparr>stockLevel := stockLevel machine + refill\<rparr>
                in (Inr (if stockLevel machine' \<ge> 3
                         then Some (StockLevelOkEvent (id' machine'))
                         else None),
                    store_machine machine' machines))
           | _ \<Rightarrow> (Inl TypeError, machines)))"

text \<open>The event class named in the type of the parameter of each \<^verbatim>\<open>handle\<close> of
  \<^verbatim>\<open>app.ts\<close>.\<close>

fun accepts_app :: "ISubscriber_app \<Rightarrow> IEvent \<Rightarrow> bool" where
  "accepts_app (MachineSaleSubscriber_app _) (MachineSaleEvent _ _) = True"
| "accepts_app (MachineRefillSubscriber_app _) (MachineRefillEvent _ _) = True"
| "accepts_app _ _ = False"

section \<open>The publish/subscribe service\<close>

text \<open>
  The state that the operations read and write: the private field \<^verbatim>\<open>subscribers\<close> of
  \<^verbatim>\<open>PublishSubscribeService\<close> (a \<^verbatim>\<open>Map\<close> from type tag to a \<^verbatim>\<open>Set\<close> of
  subscribers) and the array \<^verbatim>\<open>machines\<close>. It is polymorphic in the subscriber type,
  because the class \<^verbatim>\<open>PublishSubscribeService\<close> keeps the same \<^verbatim>\<open>subscribe\<close> and
  \<^verbatim>\<open>unsubscribe\<close> in both files.

  A JavaScript \<^verbatim>\<open>Set\<close> iterates in insertion order and holds no element twice. It is a
  list in insertion order here; \<open>Set_wf\<close> says that no list of the map has a duplicate.
\<close>

record 'sub state =
  subscribers :: "string \<rightharpoonup> 'sub list"
  machines :: "Machine list"

definition Set_add :: "'a \<Rightarrow> 'a list \<Rightarrow> 'a list" where
  "Set_add x xs = (if x \<in> set xs then xs else xs @ [x])"

definition Set_delete :: "'a \<Rightarrow> 'a list \<Rightarrow> 'a list" where
  "Set_delete x xs = removeAll x xs"

definition Set_wf :: "'sub state \<Rightarrow> bool" where
  "Set_wf s = (\<forall>subs \<in> ran (subscribers s). distinct subs)"

text \<open>\<^verbatim>\<open>subscribe(eventType, subscriber)\<close>: create the set when the tag has none, then
  add the subscriber to the set of the tag. After the first step the tag has a set, as the
  non-null assertion of the source says, so the branch \<open>None\<close> is never taken.\<close>

definition subscribe :: "string \<Rightarrow> 'sub \<Rightarrow> 'sub state \<Rightarrow> 'sub state" where
  "subscribe eventType subscriber s =
     (let subs = (if subscribers s eventType = None
                  then (subscribers s)(eventType \<mapsto> [])
                  else subscribers s)
      in case subs eventType of
           None \<Rightarrow> s\<lparr>subscribers := subs\<rparr>
         | Some xs \<Rightarrow> s\<lparr>subscribers := subs(eventType \<mapsto> Set_add subscriber xs)\<rparr>)"

text \<open>\<^verbatim>\<open>unsubscribe(eventType, subscriber)\<close>:
  \<^verbatim>\<open>this.subscribers.get(eventType)?.delete(subscriber)\<close>.\<close>

definition unsubscribe :: "string \<Rightarrow> 'sub \<Rightarrow> 'sub state \<Rightarrow> 'sub state" where
  "unsubscribe eventType subscriber s =
     (case subscribers s eventType of
        None \<Rightarrow> s
      | Some xs \<Rightarrow> s\<lparr>subscribers := (subscribers s)(eventType \<mapsto> Set_delete subscriber xs)\<rparr>)"

subsection \<open>Queue-based \<^verbatim>\<open>publish\<close> and the drain loop\<close>

text \<open>
  The body of the \<^verbatim>\<open>forEach\<close> callback of the queue-based \<^verbatim>\<open>publish\<close>: call
  \<^verbatim>\<open>handle\<close>, and push the returned event, if any, onto the caller's array
  \<^verbatim>\<open>events\<close>.
\<close>

definition notify ::
  "IEvent \<Rightarrow> IEvent list \<times> ISubscriber state \<Rightarrow> ISubscriber \<Rightarrow> IEvent list \<times> ISubscriber state" where
  "notify event acc subscriber =
     (case acc of (events, s) \<Rightarrow>
        (case handle subscriber event (machines s) of
           (newEvent, machines') \<Rightarrow>
             (case newEvent of None \<Rightarrow> events | Some e \<Rightarrow> events @ [e],
              s\<lparr>machines := machines'\<rparr>)))"

text \<open>\<^verbatim>\<open>publish(_event, events)\<close> of the queue-based file: the result is the array
  \<^verbatim>\<open>events\<close> and the state after the call.\<close>

definition publish ::
  "IEvent \<Rightarrow> IEvent list \<Rightarrow> ISubscriber state \<Rightarrow> IEvent list \<times> ISubscriber state" where
  "publish event events s =
     (case subscribers s (event_type event) of
        None \<Rightarrow> (events, s)
      | Some subs \<Rightarrow> foldl (notify event) (events, s) subs)"

text \<open>
  What one \<^verbatim>\<open>publish\<close> is expected to leave behind, read off the handlers alone:
  \<open>invoked\<close> is the set that \<^verbatim>\<open>this.subscribers.get(event.type())\<close> returns (no
  subscriber when there is none), \<open>follow_ups\<close> the events that the calls of
  \<^verbatim>\<open>handle\<close> return, in the order of the subscribers, each call on the registry the
  calls before it left, and \<open>registry_after\<close> the registry after the last call. The
  source does not compute these lists; \<^verbatim>\<open>publish\<close> is compared with them below.
\<close>

definition invoked :: "'sub state \<Rightarrow> IEvent \<Rightarrow> 'sub list" where
  "invoked s event =
     (case subscribers s (event_type event) of None \<Rightarrow> [] | Some subs \<Rightarrow> subs)"

fun follow_ups :: "IEvent \<Rightarrow> ISubscriber list \<Rightarrow> Machine list \<Rightarrow> IEvent list" where
  "follow_ups event [] ms = []"
| "follow_ups event (subscriber # rest) ms =
     (case handle subscriber event ms of
        (None, ms') \<Rightarrow> follow_ups event rest ms'
      | (Some newEvent, ms') \<Rightarrow> newEvent # follow_ups event rest ms')"

fun registry_after :: "IEvent \<Rightarrow> ISubscriber list \<Rightarrow> Machine list \<Rightarrow> Machine list" where
  "registry_after event [] ms = ms"
| "registry_after event (subscriber # rest) ms =
     registry_after event rest (snd (handle subscriber event ms))"

text \<open>
  Termination of the drain loop. A handler of the queue-based file answers a sale with a
  warning, a warning with a refill, a refill with a stock-ok event and a stock-ok event
  with nothing, so the returned event is always one step further down this chain. With
  at most \<open>n\<close> subscribers under a tag, the weight \<open>(n + 1) ^ rank\<close> of the removed
  event exceeds the weight of everything one \<^verbatim>\<open>publish\<close> pushes.
\<close>

fun rank :: "IEvent \<Rightarrow> nat" where
  "rank (MachineSaleEvent _ _) = 3"
| "rank (LowStockWarningEvent _) = 2"
| "rank (MachineRefillEvent _ _) = 1"
| "rank (StockLevelOkEvent _) = 0"

definition fanout :: "ISubscriber state \<Rightarrow> nat" where
  "fanout s = Max ((\<lambda>t. case subscribers s t of None \<Rightarrow> 0 | Some subs \<Rightarrow> length subs) `
                   {''sale'', ''refill'', ''LowStock'', ''StockLevelOk''})"

definition weight :: "nat \<Rightarrow> IEvent list \<Rightarrow> nat" where
  "weight n events = sum_list (map (\<lambda>e. Suc n ^ rank e) events)"

lemma handle_rank: "handle sub e ms = (Some e', ms') \<Longrightarrow> Suc (rank e') = rank e"
  by (cases sub; cases e) (auto split: option.splits if_splits simp: Let_def)

lemma notify_props:
  "notify e (q, s) sub = (q', s') \<Longrightarrow>
     subscribers s' = subscribers s \<and>
     (\<exists>new. q' = q @ new \<and> length new \<le> 1 \<and> (\<forall>x \<in> set new. Suc (rank x) = rank e))"
  by (auto simp: notify_def split: prod.splits option.splits dest: handle_rank)

lemma foldl_notify_props:
  "foldl (notify e) (q, s) subs = (q', s') \<Longrightarrow>
     subscribers s' = subscribers s \<and>
     (\<exists>new. q' = q @ new \<and> length new \<le> length subs \<and> (\<forall>x \<in> set new. Suc (rank x) = rank e))"
proof (induction subs arbitrary: q s)
  case Nil
  then show ?case by simp
next
  case (Cons a subs)
  obtain q1 s1 where n: "notify e (q, s) a = (q1, s1)" by (cases "notify e (q, s) a")
  from notify_props[OF n] obtain new1 where
    a: "subscribers s1 = subscribers s" "q1 = q @ new1" "length new1 \<le> 1"
       "\<forall>x \<in> set new1. Suc (rank x) = rank e" by blast
  from Cons.prems n have "foldl (notify e) (q1, s1) subs = (q', s')" by simp
  from Cons.IH[OF this] obtain new2 where
    b: "subscribers s' = subscribers s1" "q' = q1 @ new2" "length new2 \<le> length subs"
       "\<forall>x \<in> set new2. Suc (rank x) = rank e" by blast
  show ?case
    apply (rule conjI)
    using a b apply simp
    apply (rule exI[of _ "new1 @ new2"])
    using a b by auto
qed

lemma fanout_ge: "subscribers s (event_type e) = Some subs \<Longrightarrow> length subs \<le> fanout s"
  unfolding fanout_def
  by (rule Max_ge) (cases e; auto simp: image_iff)+

lemma weight_app: "weight n (xs @ ys) = weight n xs + weight n ys"
  by (simp add: weight_def)

lemma weight_new:
  "\<forall>x \<in> set new. Suc (rank x) = r \<Longrightarrow> weight n new = length new * Suc n ^ (r - 1)"
  by (induction new) (auto simp: weight_def)

lemma publish_props:
  assumes "publish e q s = (q', s')"
  shows "subscribers s' = subscribers s"
    and "\<exists>new. q' = q @ new \<and> length new \<le> fanout s \<and> (\<forall>x \<in> set new. Suc (rank x) = rank e)"
proof -
  show "subscribers s' = subscribers s"
    using assms foldl_notify_props by (fastforce simp: publish_def split: option.splits)
  show "\<exists>new. q' = q @ new \<and> length new \<le> fanout s \<and> (\<forall>x \<in> set new. Suc (rank x) = rank e)"
  proof (cases "subscribers s (event_type e)")
    case None
    with assms show ?thesis by (simp add: publish_def)
  next
    case (Some subs)
    with assms have "foldl (notify e) (q, s) subs = (q', s')" by (simp add: publish_def)
    from foldl_notify_props[OF this] obtain new where
      "q' = q @ new" "length new \<le> length subs" "\<forall>x \<in> set new. Suc (rank x) = rank e"
      by blast
    with fanout_ge[OF Some] show ?thesis
      by (intro exI[of _ new]) simp
  qed
qed

lemma publish_decreases:
  assumes "publish e q s = (q', s')"
  shows "weight (fanout s') q' < weight (fanout s) (e # q)"
proof -
  from publish_props[OF assms] obtain new where
    s: "subscribers s' = subscribers s" and q: "q' = q @ new"
    and l: "length new \<le> fanout s" and r: "\<forall>x \<in> set new. Suc (rank x) = rank e" by blast
  have f: "fanout s' = fanout s" by (simp add: fanout_def s)
  show ?thesis
  proof (cases new)
    case Nil
    then show ?thesis using q f by (simp add: weight_def)
  next
    case (Cons x xs)
    with r obtain k where k: "rank e = Suc k" by (metis list.set_intros(1))
    have "weight (fanout s) new = length new * Suc (fanout s) ^ k"
      using weight_new[OF r, of "fanout s"] k by simp
    also have "\<dots> \<le> fanout s * Suc (fanout s) ^ k" using l by simp
    also have "\<dots> < Suc (fanout s) ^ rank e" by (simp add: k)
    finally show ?thesis by (simp add: q f weight_app) (simp add: weight_def)
  qed
qed

text \<open>\<^verbatim>\<open>publish\<close> pushes exactly the follow-up events of its subscribers, in their
  order, behind what the array held, and leaves the registry the handlers left.\<close>

lemma notify_follow_up:
  "notify e (q, s) sub =
     (q @ (case fst (handle sub e (machines s)) of None \<Rightarrow> [] | Some e' \<Rightarrow> [e']),
      s\<lparr>machines := snd (handle sub e (machines s))\<rparr>)"
  by (simp add: notify_def split: prod.splits option.splits)

lemma foldl_notify_follow_ups:
  "foldl (notify e) (q, s) subs =
     (q @ follow_ups e subs (machines s), s\<lparr>machines := registry_after e subs (machines s)\<rparr>)"
proof (induction subs arbitrary: q s)
  case Nil
  then show ?case by simp
next
  case (Cons sub subs)
  show ?case
    by (cases "handle sub e (machines s)")
       (simp add: notify_follow_up Cons.IH split: option.splits)
qed

lemma publish_follow_ups:
  "publish e q s =
     (q @ follow_ups e (invoked s e) (machines s),
      s\<lparr>machines := registry_after e (invoked s e) (machines s)\<rparr>)"
  by (simp add: publish_def invoked_def foldl_notify_follow_ups split: option.splits)

text \<open>
  The driver's loop \<^verbatim>\<open>while (events.length > 0) publish(events.shift(), events)\<close>:
  \<^verbatim>\<open>shift\<close> removes the front event before \<^verbatim>\<open>publish\<close> runs, and \<^verbatim>\<open>publish\<close>
  receives the same array. The third argument records, in order, the events that were passed
  to \<^verbatim>\<open>publish\<close>; the source keeps no such record, it is there to state what was
  delivered.
\<close>

function drain ::
  "IEvent list \<Rightarrow> ISubscriber state \<Rightarrow> IEvent list \<Rightarrow> IEvent list \<times> ISubscriber state" where
  "drain [] s delivered = (delivered, s)"
| "drain (event # events) s delivered =
     (case publish event events s of
        (events', s') \<Rightarrow> drain events' s' (delivered @ [event]))"
  by pat_completeness auto
termination
  by (relation "measure (\<lambda>(events, s, delivered). weight (fanout s) events)")
     (auto dest: publish_decreases[OF sym])

text \<open>
  The order in which a run of the loop is expected to enqueue events behind the pending
  ones, again read off the handlers alone: the follow-up events of the front event, then
  what is enqueued in the run on the rest of the list with those follow-up events at its
  back. The source does not compute this list; the order of delivery is stated against it.
\<close>

function enqueued :: "IEvent list \<Rightarrow> ISubscriber state \<Rightarrow> IEvent list" where
  "enqueued [] s = []"
| "enqueued (event # events) s =
     follow_ups event (invoked s event) (machines s) @
     enqueued (events @ follow_ups event (invoked s event) (machines s))
       (s\<lparr>machines := registry_after event (invoked s event) (machines s)\<rparr>)"
  by pat_completeness auto
termination
proof (relation "measure (\<lambda>(events, s). weight (fanout s) events)", goal_cases)
  case 1
  show ?case by simp
next
  case (2 event events s)
  from publish_decreases[OF publish_follow_ups] show ?case by simp
qed

text \<open>The four \<^verbatim>\<open>subscribe\<close> calls of the queue-based driver, on a service without
  subscriptions and the registry \<open>ms\<close>.\<close>

definition driver_state :: "Machine list \<Rightarrow> ISubscriber state" where
  "driver_state ms =
     subscribe ''StockLevelOk'' (StockLevelOkSubscriber 3)
       (subscribe ''LowStock'' (StockwarningSubscriber 2)
          (subscribe ''refill'' (MachineRefillSubscriber 1)
             (subscribe ''sale'' (MachineSaleSubscriber 0)
                \<lparr>subscribers = Map.empty, machines = ms\<rparr>)))"

subsection \<open>Recursive \<^verbatim>\<open>publish\<close> of \<^verbatim>\<open>app.ts\<close>\<close>

text \<open>
  \<^verbatim>\<open>publish(event)\<close> of \<^verbatim>\<open>app.ts\<close> calls itself on every returned event before it goes
  on to the next subscriber. \<open>forEach_app\<close> is the \<^verbatim>\<open>forEach\<close> over the subscriber set.
  A TypeError raised by a handler ends every enclosing call; the first component of the
  result is the error that escaped, if any, and the second the state at that moment.

  The recursion ends because the handlers of \<^verbatim>\<open>app.ts\<close> return a warning or a stock-ok
  event only, and only for a sale or a refill.
\<close>

fun rank_app :: "IEvent \<Rightarrow> nat" where
  "rank_app (MachineSaleEvent _ _) = 1"
| "rank_app (MachineRefillEvent _ _) = 1"
| "rank_app (LowStockWarningEvent _) = 0"
| "rank_app (StockLevelOkEvent _) = 0"

lemma handle_app_rank:
  "handle_app sub e ms = (Inr (Some e'), ms') \<Longrightarrow> rank_app e' < rank_app e"
  by (cases sub; cases e) (auto split: option.splits if_splits simp: Let_def)

function publish_app ::
    "IEvent \<Rightarrow> ISubscriber_app state \<Rightarrow> error option \<times> ISubscriber_app state"
  and forEach_app ::
    "ISubscriber_app list \<Rightarrow> IEvent \<Rightarrow> ISubscriber_app state \<Rightarrow> error option \<times> ISubscriber_app state"
  where
  "publish_app event s =
     (case subscribers s (event_type event) of
        None \<Rightarrow> (None, s)
      | Some subs \<Rightarrow> forEach_app subs event s)"
| "forEach_app [] event s = (None, s)"
| "forEach_app (subscriber # rest) event s =
     (case handle_app subscriber event (machines s) of
        (Inl err, machines') \<Rightarrow> (Some err, s\<lparr>machines := machines'\<rparr>)
      | (Inr None, machines') \<Rightarrow> forEach_app rest event (s\<lparr>machines := machines'\<rparr>)
      | (Inr (Some newEvent), machines') \<Rightarrow>
          (case publish_app newEvent (s\<lparr>machines := machines'\<rparr>) of
             (Some err, s') \<Rightarrow> (Some err, s')
           | (None, s') \<Rightarrow> forEach_app rest event s'))"
  by pat_completeness auto
termination
  by (relation "inv_image (less_than <*lex*> less_than)
        (\<lambda>x. case x of
           Inl (event, s) \<Rightarrow>
             (rank_app event,
              Suc (case subscribers s (event_type event) of None \<Rightarrow> 0 | Some subs \<Rightarrow> length subs))
         | Inr (subs, event, s) \<Rightarrow> (rank_app event, length subs))")
     (auto dest: handle_app_rank[OF sym])

section \<open>The registry under \<^verbatim>\<open>find\<close> and assignment\<close>

lemma find_machine_id: "find_machine mid ms = Some m \<Longrightarrow> id' m = mid"
  by (induction ms) (auto simp: find_machine_def split: if_splits)

lemma find_machine_in_set: "find_machine mid ms = Some m \<Longrightarrow> m \<in> set ms"
  by (induction ms) (auto simp: find_machine_def split: if_splits)

lemma find_machine_None: "find_machine mid ms = None \<longleftrightarrow> mid \<notin> id' ` set ms"
  by (induction ms) (auto simp: find_machine_def)

text \<open>With unique identifiers, as the driver creates them, every machine of the registry is
  the one that \<^verbatim>\<open>find\<close> returns for its identifier.\<close>

lemma find_machine_registered:
  "distinct (map id' ms) \<Longrightarrow> m \<in> set ms \<Longrightarrow> find_machine (id' m) ms = Some m"
  by (induction ms) (auto simp: find_machine_def)

lemma find_store_machine_same:
  "find_machine mid ms = Some m \<Longrightarrow> id' m' = mid \<Longrightarrow>
   find_machine mid (store_machine m' ms) = Some m'"
  by (induction ms) (auto simp: find_machine_def split: if_splits)

lemma find_store_machine_other:
  "mid \<noteq> id' m' \<Longrightarrow> find_machine mid (store_machine m' ms) = find_machine mid ms"
  by (induction ms) (auto simp: find_machine_def)

lemma store_machine_found: "find_machine (id' m) ms = Some m \<Longrightarrow> store_machine m ms = ms"
  by (induction ms) (auto simp: find_machine_def split: if_splits)

lemma store_machine_twice:
  "id' m2 = id' m1 \<Longrightarrow> store_machine m2 (store_machine m1 ms) = store_machine m2 ms"
  by (induction ms) auto

lemma store_machine_ids: "id' m' = mid \<Longrightarrow> map id' (store_machine m' ms) = map id' ms"
  by (induction ms) auto

section \<open>Threshold crossing in the handlers\<close>

text \<open>
  The sale handler of the queue-based file, on a sale for a machine that \<^verbatim>\<open>find\<close>
  returns: the machine's stock level drops by the quantity sold, no other identifier's
  machine changes, and a \<^verbatim>\<open>LowStockWarningEvent\<close> for the machine is returned exactly
  when the level was at least 3 before and is below 3 after.
\<close>

lemma handle_sale_crossing:
  assumes "find_machine mid ms = Some m"
  shows "handle (MachineSaleSubscriber i) (MachineSaleEvent q mid) ms =
           (if 3 \<le> stockLevel m \<and> stockLevel m - q < 3
            then Some (LowStockWarningEvent mid) else None,
            store_machine (m\<lparr>stockLevel := stockLevel m - q\<rparr>) ms)"
    and "find_machine mid (snd (handle (MachineSaleSubscriber i) (MachineSaleEvent q mid) ms))
           = Some (m\<lparr>stockLevel := stockLevel m - q\<rparr>)"
    and "mid' \<noteq> mid \<Longrightarrow>
         find_machine mid' (snd (handle (MachineSaleSubscriber i) (MachineSaleEvent q mid) ms))
           = find_machine mid' ms"
  using assms find_machine_id[OF assms]
  by (auto simp: Let_def find_store_machine_same find_store_machine_other)

text \<open>The refill handler of the queue-based file, likewise: the level rises by the quantity
  refilled and a \<^verbatim>\<open>StockLevelOkEvent\<close> is returned exactly when the level was below 3
  before and is at least 3 after.\<close>

lemma handle_refill_crossing:
  assumes "find_machine mid ms = Some m"
  shows "handle (MachineRefillSubscriber i) (MachineRefillEvent q mid) ms =
           (if stockLevel m < 3 \<and> 3 \<le> stockLevel m + q
            then Some (StockLevelOkEvent mid) else None,
            store_machine (m\<lparr>stockLevel := stockLevel m + q\<rparr>) ms)"
    and "find_machine mid (snd (handle (MachineRefillSubscriber i) (MachineRefillEvent q mid) ms))
           = Some (m\<lparr>stockLevel := stockLevel m + q\<rparr>)"
    and "mid' \<noteq> mid \<Longrightarrow>
         find_machine mid' (snd (handle (MachineRefillSubscriber i) (MachineRefillEvent q mid) ms))
           = find_machine mid' ms"
  using assms find_machine_id[OF assms]
  by (auto simp: Let_def find_store_machine_same find_store_machine_other)

text \<open>The handlers of \<^verbatim>\<open>app.ts\<close> compare the new level only.\<close>

lemma handle_app_sale:
  assumes "find_machine mid ms = Some m"
  shows "handle_app (MachineSaleSubscriber_app i) (MachineSaleEvent q mid) ms =
           (Inr (if stockLevel m - q < 3 then Some (LowStockWarningEvent mid) else None),
            store_machine (m\<lparr>stockLevel := stockLevel m - q\<rparr>) ms)"
  using assms find_machine_id[OF assms] by (auto simp: Let_def)

lemma handle_app_refill:
  assumes "find_machine mid ms = Some m"
  shows "handle_app (MachineRefillSubscriber_app i) (MachineRefillEvent q mid) ms =
           (Inr (if 3 \<le> stockLevel m + q then Some (StockLevelOkEvent mid) else None),
            store_machine (m\<lparr>stockLevel := stockLevel m + q\<rparr>) ms)"
  using assms find_machine_id[OF assms] by (auto simp: Let_def)

text \<open>
  Claim C1. Handling a sale for a registered machine lowers its stock by the quantity sold
  and returns a low-stock warning if and only if the stock was at least 3 before and is
  below 3 after; a sale handled while the stock is already below 3 returns no warning.
  The sale handler of the queue-based file does this (\<open>handle_sale_crossing\<close>). The sale
  handler of \<^verbatim>\<open>app.ts\<close> does not: for a machine with stock 2, a sale of 1 lowers the
  stock to 1 and returns a warning again, where the queue-based handler returns nothing.
\<close>

theorem C1_app_sale_warns_below_threshold:
  "handle_app (MachineSaleSubscriber_app 0) (MachineSaleEvent 1 ''001'')
     [\<lparr>stockLevel = 2, id' = ''001''\<rparr>]
   = (Inr (Some (LowStockWarningEvent ''001'')), [\<lparr>stockLevel = 1, id' = ''001''\<rparr>])
   \<and> handle (MachineSaleSubscriber 0) (MachineSaleEvent 1 ''001'')
       [\<lparr>stockLevel = 2, id' = ''001''\<rparr>]
     = (None, [\<lparr>stockLevel = 1, id' = ''001''\<rparr>])"
  by (simp add: find_machine_def)

text \<open>
  Claim C2. Handling a refill for a registered machine raises its stock by the quantity
  refilled and returns a stock-ok event if and only if the stock was below 3 before and is
  at least 3 after; a refill handled while the stock is already at least 3 returns none.
  The refill handler of the queue-based file does this (\<open>handle_refill_crossing\<close>). The
  refill handler of \<^verbatim>\<open>app.ts\<close> does not: for a machine with the initial stock 10 of
  that file, a refill of 3 raises the stock to 13 and returns a stock-ok event, where the
  queue-based handler returns nothing.
\<close>

theorem C2_app_refill_ok_above_threshold:
  "handle_app (MachineRefillSubscriber_app 0) (MachineRefillEvent 3 ''001'')
     [\<lparr>stockLevel = 10, id' = ''001''\<rparr>]
   = (Inr (Some (StockLevelOkEvent ''001'')), [\<lparr>stockLevel = 13, id' = ''001''\<rparr>])
   \<and> handle (MachineRefillSubscriber 0) (MachineRefillEvent 3 ''001'')
       [\<lparr>stockLevel = 10, id' = ''001''\<rparr>]
     = (None, [\<lparr>stockLevel = 13, id' = ''001''\<rparr>])"
  by (simp add: find_machine_def)

text \<open>
  Claim C4. For a low-stock warning that targets a registered machine, the warning
  subscriber returns a refill event for that machine whose quantity is 3 minus the
  machine's stock level at that moment, and leaves the registry, so every stock level, as
  it was.
\<close>

theorem C4_warning_returns_refill_to_threshold:
  assumes "find_machine mid ms = Some m"
  shows "handle (StockwarningSubscriber i) (LowStockWarningEvent mid) ms =
           (Some (MachineRefillEvent (3 - stockLevel m) mid), ms)"
  using assms find_machine_id[OF assms] by simp

theorem C4_witness:
  "find_machine ''001'' [\<lparr>stockLevel = 1, id' = ''001''\<rparr>] = Some \<lparr>stockLevel = 1, id' = ''001''\<rparr>
   \<and> handle (StockwarningSubscriber 2) (LowStockWarningEvent ''001'')
        [\<lparr>stockLevel = 1, id' = ''001''\<rparr>]
      = (Some (MachineRefillEvent 2 ''001''), [\<lparr>stockLevel = 1, id' = ''001''\<rparr>])"
proof -
  have h: "find_machine ''001'' [\<lparr>stockLevel = 1, id' = ''001''\<rparr>]
             = Some \<lparr>stockLevel = 1, id' = ''001''\<rparr>"
    by (simp add: find_machine_def)
  show ?thesis
    using h C4_warning_returns_refill_to_threshold[OF h, of 2] by simp
qed

section \<open>The cascade of one sale in the queue-based driver\<close>

lemma driver_state_simps:
  "machines (driver_state ms) = ms"
  "subscribers (driver_state ms) ''sale'' = Some [MachineSaleSubscriber 0]"
  "subscribers (driver_state ms) ''refill'' = Some [MachineRefillSubscriber 1]"
  "subscribers (driver_state ms) ''LowStock'' = Some [StockwarningSubscriber 2]"
  "subscribers (driver_state ms) ''StockLevelOk'' = Some [StockLevelOkSubscriber 3]"
  by (simp_all add: driver_state_def subscribe_def Set_add_def)

lemma driver_state_machines_update: "(driver_state ms)\<lparr>machines := ms'\<rparr> = driver_state ms'"
  by (simp add: driver_state_def subscribe_def Set_add_def)

lemma invoked_driver_state:
  "invoked (driver_state ms) (MachineSaleEvent q m) = [MachineSaleSubscriber 0]"
  "invoked (driver_state ms) (MachineRefillEvent q m) = [MachineRefillSubscriber 1]"
  "invoked (driver_state ms) (LowStockWarningEvent m) = [StockwarningSubscriber 2]"
  "invoked (driver_state ms) (StockLevelOkEvent m) = [StockLevelOkSubscriber 3]"
  by (simp_all add: invoked_def driver_state_simps)

text \<open>With the driver's subscriptions, \<^verbatim>\<open>publish\<close> hands each event to the one
  subscriber registered under its tag.\<close>

lemma publish_driver_state:
  "publish e q (driver_state ms) =
     (case e of
        MachineSaleEvent _ _ \<Rightarrow> notify e (q, driver_state ms) (MachineSaleSubscriber 0)
      | MachineRefillEvent _ _ \<Rightarrow> notify e (q, driver_state ms) (MachineRefillSubscriber 1)
      | LowStockWarningEvent _ \<Rightarrow> notify e (q, driver_state ms) (StockwarningSubscriber 2)
      | StockLevelOkEvent _ \<Rightarrow> notify e (q, driver_state ms) (StockLevelOkSubscriber 3))"
  by (cases e) (simp_all add: publish_def driver_state_simps)

lemma notify_driver_state:
  "notify e (q, driver_state ms) sub =
     (case fst (handle sub e ms) of None \<Rightarrow> q | Some e' \<Rightarrow> q @ [e'],
      driver_state (snd (handle sub e ms)))"
  by (simp add: notify_def driver_state_simps driver_state_machines_update split: prod.splits)

text \<open>
  Claim C3. In the queue-based file, with the driver's four subscriptions and a registry
  in which \<^verbatim>\<open>find\<close> returns a machine with stock 3 for the identifier, draining the one
  seed event \<^verbatim>\<open>Sale(2)\<close> for that machine terminates (the loop is a total function),
  delivers exactly the sale, the low-stock warning, a refill of 2 and the stock-ok event in
  this order, and ends with the machine's stock at 3; the whole state is then as it was
  before the run.
\<close>

theorem C3_cascade_resolution:
  assumes "find_machine mid ms = Some m" and "stockLevel m = 3"
  shows "drain [MachineSaleEvent 2 mid] (driver_state ms) [] =
           ([MachineSaleEvent 2 mid, LowStockWarningEvent mid,
             MachineRefillEvent 2 mid, StockLevelOkEvent mid],
            driver_state ms)
         \<and> map_option stockLevel
             (find_machine mid
                (machines (snd (drain [MachineSaleEvent 2 mid] (driver_state ms) [])))) = Some 3"
proof -
  let ?m1 = "m\<lparr>stockLevel := 1\<rparr>"
  let ?ms1 = "store_machine ?m1 ms"
  have ident: "id' m = mid" using assms(1) by (rule find_machine_id)
  have f1: "find_machine mid ?ms1 = Some ?m1"
    using assms(1) ident by (simp add: find_store_machine_same)
  have restored: "store_machine (?m1\<lparr>stockLevel := 3\<rparr>) ?ms1 = ms"
    using assms ident by (simp add: store_machine_twice store_machine_found)
  have p1: "publish (MachineSaleEvent 2 mid) [] (driver_state ms)
              = ([LowStockWarningEvent mid], driver_state ?ms1)"
    using handle_sale_crossing(1)[OF assms(1), of 0 2] assms(2)
    by (simp add: publish_driver_state notify_driver_state)
  have p2: "publish (LowStockWarningEvent mid) [] (driver_state ?ms1)
              = ([MachineRefillEvent 2 mid], driver_state ?ms1)"
    using f1 ident by (simp add: publish_driver_state notify_driver_state)
  have p3: "publish (MachineRefillEvent 2 mid) [] (driver_state ?ms1)
              = ([StockLevelOkEvent mid], driver_state ms)"
    using handle_refill_crossing(1)[OF f1, of 1 2] restored
    by (simp add: publish_driver_state notify_driver_state)
  have p4: "publish (StockLevelOkEvent mid) [] (driver_state ms) = ([], driver_state ms)"
    by (simp add: publish_driver_state notify_driver_state split: option.splits)
  show ?thesis
    using assms by (simp add: p1 p2 p3 p4 driver_state_simps)
qed

theorem C3_witness:
  "drain [MachineSaleEvent 2 ''001'']
     (driver_state [\<lparr>stockLevel = 3, id' = ''001''\<rparr>, \<lparr>stockLevel = 3, id' = ''002''\<rparr>,
                    \<lparr>stockLevel = 3, id' = ''003''\<rparr>]) []
   = ([MachineSaleEvent 2 ''001'', LowStockWarningEvent ''001'',
       MachineRefillEvent 2 ''001'', StockLevelOkEvent ''001''],
      driver_state [\<lparr>stockLevel = 3, id' = ''001''\<rparr>, \<lparr>stockLevel = 3, id' = ''002''\<rparr>,
                    \<lparr>stockLevel = 3, id' = ''003''\<rparr>])"
proof -
  let ?ms = "[\<lparr>stockLevel = 3, id' = ''001''\<rparr>, \<lparr>stockLevel = 3, id' = ''002''\<rparr>,
              \<lparr>stockLevel = 3, id' = ''003''\<rparr>]"
  have h1: "find_machine ''001'' ?ms = Some \<lparr>stockLevel = 3, id' = ''001''\<rparr>"
    by (simp add: find_machine_def)
  have h2: "stockLevel \<lparr>stockLevel = 3, id' = ''001''\<rparr> = 3" by simp
  from C3_cascade_resolution[OF h1 h2] show ?thesis by blast
qed

section \<open>Events of another class\<close>

lemma handle_mismatch: "\<not> accepts sub e \<Longrightarrow> handle sub e ms = (None, ms)"
  by (cases sub; cases e) simp_all

lemma handle_app_mismatch:
  "\<not> accepts_app sub e \<Longrightarrow>
   handle_app sub e ms =
     (case find_machine (machineId e) ms of
        None \<Rightarrow> (Inr None, ms)
      | Some _ \<Rightarrow> (Inl TypeError, ms))"
  by (cases sub; cases e) (simp_all split: option.splits)

text \<open>
  Claim C5. For every subscriber, \<^verbatim>\<open>handle\<close> on an event of another class than the
  one the subscriber is written for is a no-op: no stock level changes and no event is
  returned. Every subscriber of the queue-based file does this (\<open>handle_mismatch\<close>). The
  subscribers of \<^verbatim>\<open>app.ts\<close> do not: the sale subscriber, given a refill for a
  registered machine, changes no stock level but does not return, it raises a TypeError,
  where the sale subscriber of the queue-based file returns nothing; and when that
  subscriber is subscribed under the tag of refills, the error escapes from
  \<^verbatim>\<open>publish\<close>.
\<close>

theorem C5_app_handler_raises_on_other_class:
  "\<not> accepts_app (MachineSaleSubscriber_app 0) (MachineRefillEvent 3 ''001'')
   \<and> handle_app (MachineSaleSubscriber_app 0) (MachineRefillEvent 3 ''001'')
       [\<lparr>stockLevel = 10, id' = ''001''\<rparr>]
     = (Inl TypeError, [\<lparr>stockLevel = 10, id' = ''001''\<rparr>])
   \<and> handle (MachineSaleSubscriber 0) (MachineRefillEvent 3 ''001'')
       [\<lparr>stockLevel = 10, id' = ''001''\<rparr>]
     = (None, [\<lparr>stockLevel = 10, id' = ''001''\<rparr>])
   \<and> publish_app (MachineRefillEvent 3 ''001'')
       (subscribe ''refill'' (MachineSaleSubscriber_app 0)
          \<lparr>subscribers = Map.empty, machines = [\<lparr>stockLevel = 10, id' = ''001''\<rparr>]\<rparr>)
     = (Some TypeError,
        subscribe ''refill'' (MachineSaleSubscriber_app 0)
          \<lparr>subscribers = Map.empty, machines = [\<lparr>stockLevel = 10, id' = ''001''\<rparr>]\<rparr>)"
  by (simp add: find_machine_def subscribe_def Set_add_def)

section \<open>Subscription sets\<close>

lemma subscribe_idem: "subscribe t sub (subscribe t sub s) = subscribe t sub s"
  by (simp add: subscribe_def Set_add_def Let_def split: option.splits)

lemma subscribe_Set:
  "subscribers (subscribe t sub s) t =
     Some (Set_add sub (case subscribers s t of None \<Rightarrow> [] | Some xs \<Rightarrow> xs))"
  by (simp add: subscribe_def Let_def split: option.splits)

lemma subscribe_other: "t' \<noteq> t \<Longrightarrow> subscribers (subscribe t sub s) t' = subscribers s t'"
  by (simp add: subscribe_def Let_def split: option.splits)

lemma subscribe_machines: "machines (subscribe t sub s) = machines s"
  by (simp add: subscribe_def Let_def split: option.splits)

lemma count_Set_add: "distinct xs \<Longrightarrow> count_list (Set_add x xs) x = 1"
  by (induction xs) (auto simp: Set_add_def split: if_splits)

lemma distinct_Set_add: "distinct xs \<Longrightarrow> distinct (Set_add x xs)"
  by (simp add: Set_add_def)

lemma distinct_Set_delete: "distinct xs \<Longrightarrow> distinct (Set_delete x xs)"
  by (simp add: Set_delete_def distinct_removeAll)

text \<open>\<open>Set_wf\<close> holds of a service without subscriptions, and \<^verbatim>\<open>subscribe\<close> and
  \<^verbatim>\<open>unsubscribe\<close> keep it: it holds of every state the program can reach.\<close>

lemma Set_wf_empty: "Set_wf \<lparr>subscribers = Map.empty, machines = ms\<rparr>"
  by (simp add: Set_wf_def)

lemma Set_wf_subscribe: "Set_wf s \<Longrightarrow> Set_wf (subscribe t sub s)"
  unfolding Set_wf_def
  by (auto simp: subscribe_def Let_def ran_def distinct_Set_add split: option.splits if_splits)

lemma Set_wf_unsubscribe: "Set_wf s \<Longrightarrow> Set_wf (unsubscribe t sub s)"
  unfolding Set_wf_def
  by (auto simp: unsubscribe_def ran_def distinct_Set_delete split: option.splits if_splits)

lemma Set_wf_distinct:
  "Set_wf s \<Longrightarrow> distinct (case subscribers s t of None \<Rightarrow> [] | Some xs \<Rightarrow> xs)"
  by (auto simp: Set_wf_def ran_def split: option.splits)

text \<open>
  Claim C6. \<^verbatim>\<open>subscribe\<close> is idempotent, in both files: subscribing the same subscriber
  twice to the same tag gives the same state as subscribing it once. After that the set of
  the tag holds the subscriber exactly once, and a \<^verbatim>\<open>publish\<close> of an event with that
  tag runs its callback over exactly that set: one call of the subscriber's \<^verbatim>\<open>handle\<close>
  for the event in the queue-based file, and one place in the \<^verbatim>\<open>forEach\<close> of
  \<^verbatim>\<open>app.ts\<close>.
\<close>

theorem C6_subscribe_idempotent:
  "subscribe t sub (subscribe t sub s) = subscribe t sub s \<and>
   subscribe t sub' (subscribe t sub' sa) = subscribe t sub' sa \<and>
   (Set_wf s \<and> event_type e = t \<longrightarrow>
     (\<exists>subs. subscribers (subscribe t sub (subscribe t sub s)) t = Some subs \<and>
             count_list subs sub = 1 \<and>
             publish e q (subscribe t sub (subscribe t sub s))
               = foldl (notify e) (q, subscribe t sub (subscribe t sub s)) subs)) \<and>
   (Set_wf sa \<and> event_type e = t \<longrightarrow>
     (\<exists>subs. subscribers (subscribe t sub' (subscribe t sub' sa)) t = Some subs \<and>
             count_list subs sub' = 1 \<and>
             publish_app e (subscribe t sub' (subscribe t sub' sa))
               = forEach_app subs e (subscribe t sub' (subscribe t sub' sa))))"
  by (simp add: subscribe_idem subscribe_Set publish_def count_Set_add Set_wf_distinct)

theorem C6_witness:
  "(\<exists>subs. subscribers
            (subscribe ''sale'' (MachineSaleSubscriber 0)
               (subscribe ''sale'' (MachineSaleSubscriber 0)
                  \<lparr>subscribers = Map.empty, machines = [\<lparr>stockLevel = 3, id' = ''001''\<rparr>]\<rparr>))
            ''sale'' = Some subs \<and>
          count_list subs (MachineSaleSubscriber 0) = 1 \<and>
          publish (MachineSaleEvent 1 ''001'') []
            (subscribe ''sale'' (MachineSaleSubscriber 0)
               (subscribe ''sale'' (MachineSaleSubscriber 0)
                  \<lparr>subscribers = Map.empty, machines = [\<lparr>stockLevel = 3, id' = ''001''\<rparr>]\<rparr>))
          = foldl (notify (MachineSaleEvent 1 ''001''))
              ([], subscribe ''sale'' (MachineSaleSubscriber 0)
                     (subscribe ''sale'' (MachineSaleSubscriber 0)
                        \<lparr>subscribers = Map.empty,
                          machines = [\<lparr>stockLevel = 3, id' = ''001''\<rparr>]\<rparr>))
              subs)
   \<and> machines (snd (publish (MachineSaleEvent 1 ''001'') []
        (subscribe ''sale'' (MachineSaleSubscriber 0)
           (subscribe ''sale'' (MachineSaleSubscriber 0)
              \<lparr>subscribers = Map.empty, machines = [\<lparr>stockLevel = 3, id' = ''001''\<rparr>]\<rparr>))))
     = [\<lparr>stockLevel = 2, id' = ''001''\<rparr>]
   \<and> (\<exists>subs. subscribers
            (subscribe ''sale'' (MachineSaleSubscriber_app 0)
               (subscribe ''sale'' (MachineSaleSubscriber_app 0)
                  \<lparr>subscribers = Map.empty, machines = [\<lparr>stockLevel = 10, id' = ''001''\<rparr>]\<rparr>))
            ''sale'' = Some subs \<and>
          count_list subs (MachineSaleSubscriber_app 0) = 1 \<and>
          publish_app (MachineSaleEvent 1 ''001'')
            (subscribe ''sale'' (MachineSaleSubscriber_app 0)
               (subscribe ''sale'' (MachineSaleSubscriber_app 0)
                  \<lparr>subscribers = Map.empty, machines = [\<lparr>stockLevel = 10, id' = ''001''\<rparr>]\<rparr>))
          = forEach_app subs (MachineSaleEvent 1 ''001'')
              (subscribe ''sale'' (MachineSaleSubscriber_app 0)
                 (subscribe ''sale'' (MachineSaleSubscriber_app 0)
                    \<lparr>subscribers = Map.empty,
                      machines = [\<lparr>stockLevel = 10, id' = ''001''\<rparr>]\<rparr>)))
   \<and> machines (snd (publish_app (MachineSaleEvent 1 ''001'')
        (subscribe ''sale'' (MachineSaleSubscriber_app 0)
           (subscribe ''sale'' (MachineSaleSubscriber_app 0)
              \<lparr>subscribers = Map.empty, machines = [\<lparr>stockLevel = 10, id' = ''001''\<rparr>]\<rparr>))))
     = [\<lparr>stockLevel = 9, id' = ''001''\<rparr>]"
proof -
  let ?s = "\<lparr>subscribers = Map.empty, machines = [\<lparr>stockLevel = 3, id' = ''001''\<rparr>]\<rparr>
              :: ISubscriber state"
  let ?sa = "\<lparr>subscribers = Map.empty, machines = [\<lparr>stockLevel = 10, id' = ''001''\<rparr>]\<rparr>
               :: ISubscriber_app state"
  have wf: "Set_wf ?s \<and> event_type (MachineSaleEvent 1 ''001'') = ''sale''"
    by (simp add: Set_wf_empty)
  have wfa: "Set_wf ?sa \<and> event_type (MachineSaleEvent 1 ''001'') = ''sale''"
    by (simp add: Set_wf_empty)
  have once: "machines (snd (publish (MachineSaleEvent 1 ''001'') []
        (subscribe ''sale'' (MachineSaleSubscriber 0)
           (subscribe ''sale'' (MachineSaleSubscriber 0) ?s))))
     = [\<lparr>stockLevel = 2, id' = ''001''\<rparr>]"
    by (simp add: subscribe_def Set_add_def publish_def notify_def find_machine_def)
  have oncea: "machines (snd (publish_app (MachineSaleEvent 1 ''001'')
        (subscribe ''sale'' (MachineSaleSubscriber_app 0)
           (subscribe ''sale'' (MachineSaleSubscriber_app 0) ?sa))))
     = [\<lparr>stockLevel = 9, id' = ''001''\<rparr>]"
    by (simp add: subscribe_def Set_add_def find_machine_def)
  from C6_subscribe_idempotent[where s = ?s and sa = ?sa and t = "''sale''"
      and sub = "MachineSaleSubscriber 0" and sub' = "MachineSaleSubscriber_app 0"
      and e = "MachineSaleEvent 1 ''001''" and q = "[]"] wf wfa once oncea
  show ?thesis by blast
qed

section \<open>Events without a target or without subscribers\<close>

lemma handle_unknown: "find_machine (machineId e) ms = None \<Longrightarrow> handle sub e ms = (None, ms)"
  by (cases sub; cases e) simp_all

lemma handle_app_unknown:
  "find_machine (machineId e) ms = None \<Longrightarrow> handle_app sub e ms = (Inr None, ms)"
  by (cases sub) simp_all

lemma foldl_notify_noop:
  "(\<And>sub. handle sub e (machines s) = (None, machines s)) \<Longrightarrow>
   foldl (notify e) (q, s) subs = (q, s)"
  by (induction subs) (simp_all add: notify_def)

lemma forEach_app_noop:
  "(\<And>sub. handle_app sub e (machines s) = (Inr None, machines s)) \<Longrightarrow>
   forEach_app subs e s = (None, s)"
  by (induction subs) simp_all

text \<open>
  Claim C7. For a sale or a refill whose machine identifier matches no machine of the
  registry, handling the event is a no-op, in both files: every \<^verbatim>\<open>handle\<close> returns
  nothing, raises nothing and leaves the registry as it was, and so \<^verbatim>\<open>publish\<close> of
  the event changes nothing, pushes no event and (in \<^verbatim>\<open>app.ts\<close>) ends without an
  error.
\<close>

theorem C7_unknown_machine:
  assumes "e = MachineSaleEvent q mid \<or> e = MachineRefillEvent q mid"
  shows "(find_machine mid ms = None \<longrightarrow>
            handle sub e ms = (None, ms) \<and> handle_app sub' e ms = (Inr None, ms)) \<and>
         (find_machine mid (machines s) = None \<longrightarrow> publish e events s = (events, s)) \<and>
         (find_machine mid (machines sa) = None \<longrightarrow> publish_app e sa = (None, sa))"
proof -
  have m: "machineId e = mid" using assms by auto
  show ?thesis
    by (auto simp: m handle_unknown handle_app_unknown publish_def foldl_notify_noop
        forEach_app_noop split: option.splits)
qed

theorem C7_witness:
  "handle (MachineSaleSubscriber 0) (MachineSaleEvent 1 ''999'')
     [\<lparr>stockLevel = 3, id' = ''001''\<rparr>] = (None, [\<lparr>stockLevel = 3, id' = ''001''\<rparr>])
   \<and> handle_app (MachineSaleSubscriber_app 0) (MachineSaleEvent 1 ''999'')
       [\<lparr>stockLevel = 3, id' = ''001''\<rparr>] = (Inr None, [\<lparr>stockLevel = 3, id' = ''001''\<rparr>])
   \<and> publish (MachineSaleEvent 1 ''999'') []
       (driver_state [\<lparr>stockLevel = 3, id' = ''001''\<rparr>])
     = ([], driver_state [\<lparr>stockLevel = 3, id' = ''001''\<rparr>])
   \<and> publish_app (MachineSaleEvent 1 ''999'')
       \<lparr>subscribers = [''sale'' \<mapsto> [MachineSaleSubscriber_app 0]],
        machines = [\<lparr>stockLevel = 3, id' = ''001''\<rparr>]\<rparr>
     = (None, \<lparr>subscribers = [''sale'' \<mapsto> [MachineSaleSubscriber_app 0]],
               machines = [\<lparr>stockLevel = 3, id' = ''001''\<rparr>]\<rparr>)"
proof -
  have e: "MachineSaleEvent 1 ''999'' = MachineSaleEvent 1 ''999''
           \<or> MachineSaleEvent 1 ''999'' = MachineRefillEvent 1 ''999''" by simp
  have f: "find_machine ''999'' [\<lparr>stockLevel = 3, id' = ''001''\<rparr>] = None"
    by (simp add: find_machine_def)
  from C7_unknown_machine[OF e, where ms = "[\<lparr>stockLevel = 3, id' = ''001''\<rparr>]"
      and sub = "MachineSaleSubscriber 0" and sub' = "MachineSaleSubscriber_app 0"
      and s = "driver_state [\<lparr>stockLevel = 3, id' = ''001''\<rparr>]" and events = "[]"
      and sa = "\<lparr>subscribers = [''sale'' \<mapsto> [MachineSaleSubscriber_app 0]],
                 machines = [\<lparr>stockLevel = 3, id' = ''001''\<rparr>]\<rparr>"] f
  show ?thesis by (simp add: driver_state_simps)
qed

text \<open>
  Claim C8. When the map of the service has no entry for the type tag of an event,
  \<^verbatim>\<open>publish\<close> of that event is a silent no-op, in both files: no subscriber is called,
  the state is unchanged, no event is pushed or published, and no error is raised.
\<close>

theorem C8_no_subscribers:
  "(subscribers s (event_type e) = None \<longrightarrow> publish e events s = (events, s)) \<and>
   (subscribers sa (event_type e) = None \<longrightarrow> publish_app e sa = (None, sa))"
  by (simp add: publish_def)

theorem C8_witness:
  "publish (MachineRefillEvent 3 ''001'') [MachineSaleEvent 1 ''002'']
     (subscribe ''sale'' (MachineSaleSubscriber 0)
        \<lparr>subscribers = Map.empty, machines = [\<lparr>stockLevel = 3, id' = ''001''\<rparr>]\<rparr>)
   = ([MachineSaleEvent 1 ''002''],
      subscribe ''sale'' (MachineSaleSubscriber 0)
        \<lparr>subscribers = Map.empty, machines = [\<lparr>stockLevel = 3, id' = ''001''\<rparr>]\<rparr>)
   \<and> publish_app (MachineRefillEvent 3 ''001'')
       \<lparr>subscribers = Map.empty, machines = [\<lparr>stockLevel = 10, id' = ''001''\<rparr>]\<rparr>
     = (None, \<lparr>subscribers = Map.empty, machines = [\<lparr>stockLevel = 10, id' = ''001''\<rparr>]\<rparr>)"
proof -
  let ?s = "subscribe ''sale'' (MachineSaleSubscriber 0)
        \<lparr>subscribers = Map.empty, machines = [\<lparr>stockLevel = 3, id' = ''001''\<rparr>]\<rparr>"
  let ?sa = "\<lparr>subscribers = Map.empty, machines = [\<lparr>stockLevel = 10, id' = ''001''\<rparr>]\<rparr>
               :: ISubscriber_app state"
  have a: "subscribers ?s (event_type (MachineRefillEvent 3 ''001'')) = None"
    by (simp add: subscribe_other)
  have b: "subscribers ?sa (event_type (MachineRefillEvent 3 ''001'')) = None" by simp
  from C8_no_subscribers[where s = ?s and sa = ?sa and e = "MachineRefillEvent 3 ''001''"
      and events = "[MachineSaleEvent 1 ''002'']"] a b
  show ?thesis by blast
qed

section \<open>Order of delivery and the frame of \<^verbatim>\<open>publish\<close>\<close>

lemma publish_appends: "\<exists>new. fst (publish e q s) = q @ new"
  by (simp add: publish_follow_ups)

lemma drain_enqueued:
  "fst (drain events s delivered) = delivered @ events @ enqueued events s"
proof (induction events s delivered rule: drain.induct)
  case (1 s delivered)
  then show ?case by simp
next
  case (2 event events s delivered)
  from 2[OF publish_follow_ups[symmetric]] show ?case
    by (simp add: publish_follow_ups)
qed

lemma drain_prefix: "prefix (delivered @ events) (fst (drain events s delivered))"
  by (simp add: drain_enqueued)

text \<open>
  Claim C9. In the queue-based file, \<^verbatim>\<open>publish\<close> appends each follow-up event that a
  subscriber produces to the back of the caller's pending list: the list it leaves is the
  pending list followed by exactly the events the handlers returned, in the order of the
  subscribers. The loop removes the front event of the list, delivers it, and goes on with
  the list that \<^verbatim>\<open>publish\<close> left. Hence every run delivers the events in the order in
  which they were enqueued: the order of delivery is what had been delivered, then the
  pending events in list order, then the follow-up events in the order in which they were
  enqueued.
\<close>

theorem C9_fifo_delivery:
  "publish e events s =
     (events @ follow_ups e (invoked s e) (machines s),
      s\<lparr>machines := registry_after e (invoked s e) (machines s)\<rparr>) \<and>
   drain (e # events) s delivered =
     drain (events @ follow_ups e (invoked s e) (machines s))
       (s\<lparr>machines := registry_after e (invoked s e) (machines s)\<rparr>) (delivered @ [e]) \<and>
   fst (drain events s delivered) = delivered @ events @ enqueued events s \<and>
   prefix (delivered @ events) (fst (drain events s delivered))"
  by (simp add: publish_follow_ups drain_enqueued)

theorem C9_witness:
  "publish (MachineSaleEvent 2 ''001'') [MachineSaleEvent 1 ''002'']
     (driver_state [\<lparr>stockLevel = 3, id' = ''001''\<rparr>, \<lparr>stockLevel = 3, id' = ''002''\<rparr>])
   = ([MachineSaleEvent 1 ''002'', LowStockWarningEvent ''001''],
      driver_state [\<lparr>stockLevel = 1, id' = ''001''\<rparr>, \<lparr>stockLevel = 3, id' = ''002''\<rparr>])
   \<and> fst (drain [MachineSaleEvent 2 ''001'', MachineSaleEvent 1 ''002'']
            (driver_state [\<lparr>stockLevel = 3, id' = ''001''\<rparr>, \<lparr>stockLevel = 3, id' = ''002''\<rparr>])
            [])
     = [MachineSaleEvent 2 ''001'', MachineSaleEvent 1 ''002'',
        LowStockWarningEvent ''001'', LowStockWarningEvent ''002'',
        MachineRefillEvent 2 ''001'', MachineRefillEvent 1 ''002'',
        StockLevelOkEvent ''001'', StockLevelOkEvent ''002'']"
proof -
  let ?s = "driver_state [\<lparr>stockLevel = 3, id' = ''001''\<rparr>, \<lparr>stockLevel = 3, id' = ''002''\<rparr>]"
  let ?e = "MachineSaleEvent 2 ''001''"
  let ?seeds = "[MachineSaleEvent 2 ''001'', MachineSaleEvent 1 ''002'']"
  have "publish ?e [MachineSaleEvent 1 ''002''] ?s =
          ([MachineSaleEvent 1 ''002''] @ follow_ups ?e (invoked ?s ?e) (machines ?s),
           ?s\<lparr>machines := registry_after ?e (invoked ?s ?e) (machines ?s)\<rparr>)"
    using C9_fifo_delivery[where e = ?e and events = "[MachineSaleEvent 1 ''002'']" and s = ?s]
    by blast
  moreover have "follow_ups ?e (invoked ?s ?e) (machines ?s) = [LowStockWarningEvent ''001'']"
    by (simp add: invoked_driver_state driver_state_simps find_machine_def)
  moreover have "registry_after ?e (invoked ?s ?e) (machines ?s)
                   = [\<lparr>stockLevel = 1, id' = ''001''\<rparr>, \<lparr>stockLevel = 3, id' = ''002''\<rparr>]"
    by (simp add: invoked_driver_state driver_state_simps find_machine_def)
  ultimately have p: "publish ?e [MachineSaleEvent 1 ''002''] ?s
      = ([MachineSaleEvent 1 ''002'', LowStockWarningEvent ''001''],
         driver_state [\<lparr>stockLevel = 1, id' = ''001''\<rparr>, \<lparr>stockLevel = 3, id' = ''002''\<rparr>])"
    by (simp add: driver_state_machines_update)
  have "fst (drain ?seeds ?s []) = [] @ ?seeds @ enqueued ?seeds ?s"
    using C9_fifo_delivery[where events = ?seeds and s = ?s and delivered = "[]"] by blast
  moreover have "enqueued ?seeds ?s
      = [LowStockWarningEvent ''001'', LowStockWarningEvent ''002'',
         MachineRefillEvent 2 ''001'', MachineRefillEvent 1 ''002'',
         StockLevelOkEvent ''001'', StockLevelOkEvent ''002'']"
    by (simp add: invoked_driver_state driver_state_simps driver_state_machines_update
        find_machine_def)
  ultimately have d: "fst (drain ?seeds ?s [])
      = [MachineSaleEvent 2 ''001'', MachineSaleEvent 1 ''002'',
         LowStockWarningEvent ''001'', LowStockWarningEvent ''002'',
         MachineRefillEvent 2 ''001'', MachineRefillEvent 1 ''002'',
         StockLevelOkEvent ''001'', StockLevelOkEvent ''002'']"
    by simp
  from p d show ?thesis by blast
qed

text \<open>A run with two seed events for two machines, each of which cascades: the warnings
  are delivered in the order of the sales that caused them, after both sales, and so on
  down the chain.\<close>

lemma drain_two_sales:
  "fst (drain [MachineSaleEvent 2 ''001'', MachineSaleEvent 1 ''002'']
          (driver_state [\<lparr>stockLevel = 3, id' = ''001''\<rparr>, \<lparr>stockLevel = 3, id' = ''002''\<rparr>]) [])
   = [MachineSaleEvent 2 ''001'', MachineSaleEvent 1 ''002'',
      LowStockWarningEvent ''001'', LowStockWarningEvent ''002'',
      MachineRefillEvent 2 ''001'', MachineRefillEvent 1 ''002'',
      StockLevelOkEvent ''001'', StockLevelOkEvent ''002'']"
  by (simp add: publish_driver_state notify_driver_state find_machine_def)

lemma publish_subscribers: "subscribers (snd (publish e q s)) = subscribers s"
  using publish_props(1)[of e q s] by (cases "publish e q s") simp

lemma drain_subscribers: "subscribers (snd (drain q s d)) = subscribers s"
proof (induction q s d rule: drain.induct)
  case (1 s delivered)
  then show ?case by simp
next
  case (2 event events s delivered)
  obtain q' s' where p: "publish event events s = (q', s')" by (cases "publish event events s")
  with 2[OF p[symmetric]] publish_props(1)[OF p] show ?case by simp
qed

lemma publish_app_subscribers:
  "subscribers (snd (publish_app e s)) = subscribers s"
  "subscribers (snd (forEach_app subs e s)) = subscribers s"
proof (induction e s and subs e s rule: publish_app_forEach_app.induct)
  case (1 event s)
  then show ?case by (simp split: option.splits)
next
  case (2 event s)
  then show ?case by simp
next
  case (3 subscriber rest event s)
  show ?case
  proof (cases "handle_app subscriber event (machines s)")
    case (Pair r ms')
    show ?thesis
    proof (cases r)
      case (Inl err)
      with Pair show ?thesis by simp
    next
      case (Inr b)
      show ?thesis
      proof (cases b)
        case None
        with 3(1)[OF Pair[symmetric] Inr None] Pair Inr show ?thesis by simp
      next
        case (Some newEvent)
        obtain r' s' where p: "publish_app newEvent (s\<lparr>machines := ms'\<rparr>) = (r', s')"
          by (cases "publish_app newEvent (s\<lparr>machines := ms'\<rparr>)")
        have s': "subscribers s' = subscribers s"
          using 3(2)[OF Pair[symmetric] Inr Some] p by simp
        show ?thesis
        proof (cases r')
          case None
          with 3(3)[OF Pair[symmetric] Inr Some p[symmetric] None] Pair Inr Some p s'
          show ?thesis by simp
        next
          case (Some err)
          with Pair Inr \<open>b = Some newEvent\<close> p s' show ?thesis by simp
        qed
      qed
    qed
  qed
qed

text \<open>
  Claim C10. \<^verbatim>\<open>publish\<close> never modifies the subscription map: after the queue-based
  \<^verbatim>\<open>publish\<close>, after a whole run of the drain loop with all its cascades, and after the
  recursive \<^verbatim>\<open>publish\<close> of \<^verbatim>\<open>app.ts\<close> with all the calls it makes to itself (whether
  it returns or a TypeError escapes), the map from type tag to subscriber set is the one
  from before the call.
\<close>

theorem C10_publish_keeps_subscribers:
  "subscribers (snd (publish e events s)) = subscribers s \<and>
   subscribers (snd (drain events s delivered)) = subscribers s \<and>
   subscribers (snd (publish_app e sa)) = subscribers sa"
  by (simp add: publish_subscribers drain_subscribers publish_app_subscribers
      del: publish_app.simps)

theorem C10_witness:
  "subscribers (snd (drain [MachineSaleEvent 2 ''001'']
                       (driver_state [\<lparr>stockLevel = 3, id' = ''001''\<rparr>]) []))
   = subscribers (driver_state [\<lparr>stockLevel = 3, id' = ''001''\<rparr>])
   \<and> subscribers (snd (publish_app (MachineSaleEvent 8 ''001'')
        \<lparr>subscribers = [''sale'' \<mapsto> [MachineSaleSubscriber_app 0],
                        ''LowStock'' \<mapsto> [MachineRefillSubscriber_app 1]],
         machines = [\<lparr>stockLevel = 10, id' = ''001''\<rparr>]\<rparr>))
     = [''sale'' \<mapsto> [MachineSaleSubscriber_app 0],
        ''LowStock'' \<mapsto> [MachineRefillSubscriber_app 1]]"
  using C10_publish_keeps_subscribers[where
      events = "[MachineSaleEvent 2 ''001'']"
      and s = "driver_state [\<lparr>stockLevel = 3, id' = ''001''\<rparr>]" and delivered = "[]"
      and e = "MachineSaleEvent 8 ''001''"
      and sa = "\<lparr>subscribers = [''sale'' \<mapsto> [MachineSaleSubscriber_app 0],
                                ''LowStock'' \<mapsto> [MachineRefillSubscriber_app 1]],
                 machines = [\<lparr>stockLevel = 10, id' = ''001''\<rparr>]\<rparr>"]
  by (simp del: publish_app.simps drain.simps)

end
